theory Spec2Isabelle
  imports Main "HOL-Library.Word" "HOL-Library.Sublist"
begin

section \<open>JavaScript strings\<close>

text \<open>
  A JavaScript string is a sequence of 16-bit code units; \<open>length\<close>, \<open>trim\<close>, \<open>split\<close>
  and the regular expressions of \<^verbatim>\<open>word-generator.js\<close> all work on code units.
\<close>

type_synonym code_unit = "16 word"

type_synonym jsstring = "code_unit list"

text \<open>String literals of the source are written as Isabelle strings and read as code units.\<close>

definition js :: "string \<Rightarrow> jsstring" where
  "js s = map of_char s"

definition nl :: code_unit where
  "nl = 0x0A"

text \<open>
  ECMAScript \<open>WhiteSpace\<close> and \<open>LineTerminator\<close>: the code units that \<open>trim\<close> strips and
  that the class \<^verbatim>\<open>\s\<close> matches.
\<close>

definition is_space :: "code_unit \<Rightarrow> bool" where
  "is_space c \<longleftrightarrow>
     c = 0x09 \<or> c = 0x0A \<or> c = 0x0B \<or> c = 0x0C \<or> c = 0x0D \<or> c = 0x20 \<or> c = 0xA0 \<or>
     c = 0x1680 \<or> (0x2000 \<le> c \<and> c \<le> 0x200A) \<or> c = 0x2028 \<or> c = 0x2029 \<or>
     c = 0x202F \<or> c = 0x205F \<or> c = 0x3000 \<or> c = 0xFEFF"

definition is_digit :: "code_unit \<Rightarrow> bool" where
  "is_digit c \<longleftrightarrow> 0x30 \<le> c \<and> c \<le> 0x39"

text \<open>\<^verbatim>\<open>String.prototype.trim\<close>: white space is removed from both ends.\<close>

definition trim :: "jsstring \<Rightarrow> jsstring" where
  "trim s = rev (dropWhile is_space (rev (dropWhile is_space s)))"

text \<open>
  \<^verbatim>\<open>s.split('\n')\<close>, a split at a one-unit separator: the pieces between the
  separators, the empty ones included; the empty string gives one empty piece.
\<close>

fun split_unit_from :: "code_unit \<Rightarrow> jsstring \<Rightarrow> jsstring \<Rightarrow> jsstring list" where
  "split_unit_from d cur [] = [rev cur]"
| "split_unit_from d cur (c # cs) =
     (if c = d then rev cur # split_unit_from d [] cs else split_unit_from d (c # cur) cs)"

definition split_unit :: "code_unit \<Rightarrow> jsstring \<Rightarrow> jsstring list" where
  "split_unit d s = split_unit_from d [] s"

text \<open>Reading an array element: \<^verbatim>\<open>undefined\<close> (here \<open>None\<close>) outside the array.\<close>

definition index :: "'a list \<Rightarrow> nat \<Rightarrow> 'a option" where
  "index xs i = (if i < length xs then Some (xs ! i) else None)"

text \<open>The decimal digits of a non-negative integer, as a template literal prints it.\<close>

fun js_num :: "nat \<Rightarrow> jsstring" where
  "js_num n = (if n < 10 then [0x30 + of_nat n] else js_num (n div 10) @ [0x30 + of_nat (n mod 10)])"

declare js_num.simps [simp del]

section \<open>Regular expressions\<close>

text \<open>
  The fragment of ECMAScript regular expressions that the source uses: single code units,
  the classes \<^verbatim>\<open>\d\<close>, \<^verbatim>\<open>\s\<close> and \<^verbatim>\<open>[^\n]\<close>, greedy \<^verbatim>\<open>*\<close> and \<^verbatim>\<open>+\<close> on
  them, sequence, alternative, one capture group, \<^verbatim>\<open>^\<close> and the lookahead \<^verbatim>\<open>(?=...)\<close>.
\<close>

datatype atom = Lit code_unit | Digit | Space | NotNewline

datatype regex =
    Atom atom
  | Star atom
  | Seq regex regex
  | Alt regex regex
  | Group regex
  | Bol
  | Lookahead regex
  | Empty

definition Plus :: "atom \<Rightarrow> regex" where
  "Plus a = Seq (Atom a) (Star a)"

text \<open>A run of literal code units.\<close>

definition lits :: "string \<Rightarrow> regex" where
  "lits s = foldr (\<lambda>c r. Seq (Atom (Lit (of_char c))) r) s Empty"

text \<open>
  \<open>Canonicalize\<close> of the flag \<^verbatim>\<open>i\<close> (without \<^verbatim>\<open>u\<close>) maps a code unit to its upper
  case, except that a unit from 128 on is never mapped below 128. Every literal of the
  source's patterns is ASCII, and against an ASCII literal the comparison of the
  canonical forms is the comparison of the ASCII upper cases.
\<close>

definition canonicalize :: "code_unit \<Rightarrow> code_unit" where
  "canonicalize c = (if 0x61 \<le> c \<and> c \<le> 0x7A then c - 0x20 else c)"

fun atom_ok :: "bool \<Rightarrow> atom \<Rightarrow> code_unit \<Rightarrow> bool" where
  "atom_ok ic (Lit p) c = (if ic then canonicalize c = canonicalize p else c = p)"
| "atom_ok ic Digit c = is_digit c"
| "atom_ok ic Space c = is_space c"
| "atom_ok ic NotNewline c = (c \<noteq> nl)"

text \<open>
  A matcher state: the index reached in the input, the input from there on, and the text
  of capture group 1. The matcher returns every way to match from a state, in the order
  in which the backtracking of ECMAScript tries them; the first one is the match. No
  capture group of the source lies inside a lookahead, so the lookahead returns the
  state it started from.
\<close>

type_synonym mstate = "nat \<times> jsstring \<times> jsstring option"

fun rx_m :: "bool \<Rightarrow> regex \<Rightarrow> mstate \<Rightarrow> mstate list" where
  "rx_m ic (Atom a) (p, [], cap) = []"
| "rx_m ic (Atom a) (p, x # xs, cap) = (if atom_ok ic a x then [(Suc p, xs, cap)] else [])"
| "rx_m ic (Star a) (p, [], cap) = [(p, [], cap)]"
| "rx_m ic (Star a) (p, x # xs, cap) =
     (if atom_ok ic a x then rx_m ic (Star a) (Suc p, xs, cap) else []) @ [(p, x # xs, cap)]"
| "rx_m ic (Seq r1 r2) st = concat (map (rx_m ic r2) (rx_m ic r1 st))"
| "rx_m ic (Alt r1 r2) st = rx_m ic r1 st @ rx_m ic r2 st"
| "rx_m ic (Group r) (p, s, cap) =
     map (\<lambda>(p', s', cap'). (p', s', Some (take (p' - p) s))) (rx_m ic r (p, s, cap))"
| "rx_m ic Bol (p, s, cap) = (if p = 0 then [(p, s, cap)] else [])"
| "rx_m ic (Lookahead r) st = (if rx_m ic r st = [] then [] else [st])"
| "rx_m ic Empty st = [st]"

text \<open>
  \<open>RegExpBuiltinExec\<close> without the flags \<^verbatim>\<open>g\<close> and \<^verbatim>\<open>y\<close>: the match is tried at
  index 0, 1, ... up to the length of the input; the result is the start index and the
  final state of the first match.
\<close>

fun rx_exec_from :: "bool \<Rightarrow> regex \<Rightarrow> nat \<Rightarrow> jsstring \<Rightarrow> (nat \<times> mstate) option" where
  "rx_exec_from ic r q [] =
     (case rx_m ic r (q, [], None) of [] \<Rightarrow> None | st # _ \<Rightarrow> Some (q, st))"
| "rx_exec_from ic r q (x # xs) =
     (case rx_m ic r (q, x # xs, None) of
        [] \<Rightarrow> rx_exec_from ic r (Suc q) xs
      | st # _ \<Rightarrow> Some (q, st))"

definition rx_exec :: "bool \<Rightarrow> regex \<Rightarrow> jsstring \<Rightarrow> (nat \<times> mstate) option" where
  "rx_exec ic r s = rx_exec_from ic r 0 s"

text \<open>
  \<^verbatim>\<open>s.match(re)\<close> for a pattern with one capture group: \<open>None\<close> is \<^verbatim>\<open>null\<close>, and
  \<open>Some cap\<close> carries element 1 of the match array.
\<close>

definition str_match :: "bool \<Rightarrow> regex \<Rightarrow> jsstring \<Rightarrow> jsstring option option" where
  "str_match ic r s =
     (case rx_exec ic r s of None \<Rightarrow> None | Some (b, e, rest, cap) \<Rightarrow> Some cap)"

text \<open>\<^verbatim>\<open>s.replace(re, repl)\<close>: the first match, if any, is replaced.\<close>

definition str_replace :: "bool \<Rightarrow> regex \<Rightarrow> jsstring \<Rightarrow> jsstring \<Rightarrow> jsstring" where
  "str_replace ic r repl s =
     (case rx_exec ic r s of
        None \<Rightarrow> s
      | Some (b, e, rest, cap) \<Rightarrow> take b s @ repl @ drop e s)"

text \<open>
  \<^verbatim>\<open>s.split(re)\<close>, the loop of \<^verbatim>\<open>RegExp.prototype[Symbol.split]\<close>: \<open>p\<close> is the
  start of the current piece, \<open>q\<close> the index where a match is tried next, \<open>cur\<close> the
  piece from \<open>p\<close> to \<open>q\<close> (reversed) and the last argument the input from \<open>q\<close> on. A
  match that ends at \<open>p\<close> is skipped; the pattern of the source has no capture group
  whose text would be added to the pieces.
\<close>

function split_rx_from :: "regex \<Rightarrow> nat \<Rightarrow> nat \<Rightarrow> jsstring \<Rightarrow> jsstring \<Rightarrow> jsstring list" where
  "split_rx_from r p q cur [] = [rev cur]"
| "split_rx_from r p q cur (x # xs) =
     (case rx_m False r (q, x # xs, None) of
        [] \<Rightarrow> split_rx_from r p (Suc q) (x # cur) xs
      | (e, rest, cap) # _ \<Rightarrow>
          if e = p then split_rx_from r p (Suc q) (x # cur) xs
          else rev cur # split_rx_from r e e [] rest)"
  by pat_completeness auto
termination
proof -
  have adv: "(p', s', c') \<in> set (rx_m ic r (p, s, c)) \<Longrightarrow> p \<le> p' \<and> s' = drop (p' - p) s \<and> p' - p \<le> length s"
    for ic r p s c p' s' c'
  proof (induction ic r "(p, s, c)" arbitrary: p s c p' s' c' rule: rx_m.induct)
    case (4 ic a p x xs cap)
    show ?case
    proof (cases "(p', s', c') = (p, x # xs, cap)")
      case True
      then show ?thesis by simp
    next
      case False
      with 4 have ok: "atom_ok ic a x" and m: "(p', s', c') \<in> set (rx_m ic (Star a) (Suc p, xs, cap))"
        by (auto split: if_splits)
      from 4(1)[OF ok m] have le: "Suc p \<le> p'" and eq: "s' = drop (p' - Suc p) xs"
        and bd: "p' - Suc p \<le> length xs" by auto
      from le have "p' - p = Suc (p' - Suc p)" by arith
      with le eq bd show ?thesis by simp
    qed
  next
    case (5 ic r1 r2 p s c)
    from 5(3) obtain p1 s1 c1 where
      m1: "(p1, s1, c1) \<in> set (rx_m ic r1 (p, s, c))" and
      m2: "(p', s', c') \<in> set (rx_m ic r2 (p1, s1, c1))"
      by auto
    from 5(1)[OF m1] have a: "p \<le> p1" "s1 = drop (p1 - p) s" "p1 - p \<le> length s" by auto
    from 5(2)[OF m1 m2] have b: "p1 \<le> p'" "s' = drop (p' - p1) s1" "p' - p1 \<le> length s1" by auto
    from a b show ?case by auto
  qed (auto split: if_splits)
  show ?thesis
  proof (relation "measure (\<lambda>(r, p, q, cur, rest). 2 * length rest + (if p = q then 0 else 1))", goal_cases)
    case 1
    then show ?case by simp
  next
    case (2 r p q cur x xs)
    then show ?case by simp
  next
    case (3 r p q cur x xs a list aa b ab ba)
    then show ?case by simp
  next
    case (4 r p q cur x xs a list e b rest cap)
    have "(e, rest, cap) \<in> set (rx_m False r (q, x # xs, None))"
      using 4 by simp
    from adv[OF this] 4 show ?case by auto
  qed
qed

definition split_rx :: "regex \<Rightarrow> jsstring \<Rightarrow> jsstring list" where
  "split_rx r s =
     (if s = [] then (if rx_m False r (0, [], None) = [] then [[]] else [])
      else split_rx_from r 0 0 [] s)"

section \<open>The grant text parser\<close>

datatype js_error = TypeError

text \<open>A grant entry as \<^verbatim>\<open>parseGrantText\<close> builds it; \<open>None\<close> is \<^verbatim>\<open>null\<close>.\<close>

record grant =
  raw :: jsstring
  title :: "jsstring option"
  organization :: "jsstring option"
  amount :: "jsstring option"
  deadline :: "jsstring option"
  description :: jsstring

text \<open>\<^verbatim>\<open>/\n\n(?=\d+\.|Grant|Foundation)/\<close>\<close>

definition section_rx :: regex where
  "section_rx =
     Seq (Atom (Lit nl)) (Seq (Atom (Lit nl))
       (Lookahead (Alt (Seq (Plus Digit) (Atom (Lit (of_char CHR ''.''))))
                  (Alt (lits ''Grant'') (lits ''Foundation'')))))"

text \<open>\<^verbatim>\<open>/^\d+\.\s*/\<close>, \<^verbatim>\<open>/^Grant:\s*/i\<close> and \<^verbatim>\<open>/^Foundation:\s*/i\<close>\<close>

definition numbering_rx :: regex where
  "numbering_rx = Seq Bol (Seq (Plus Digit) (Seq (Atom (Lit (of_char CHR ''.''))) (Star Space)))"

definition grant_prefix_rx :: regex where
  "grant_prefix_rx = Seq Bol (Seq (lits ''Grant:'') (Star Space))"

definition foundation_prefix_rx :: regex where
  "foundation_prefix_rx = Seq Bol (Seq (lits ''Foundation:'') (Star Space))"

text \<open>
  \<^verbatim>\<open>/(?:Foundation|Organization|Funder):\s*([^\n]+)/i\<close>,
  \<^verbatim>\<open>/(?:Amount|Funding|Grant Size):\s*([^\n]+)/i\<close> and
  \<^verbatim>\<open>/(?:Deadline|Due|Application Due):\s*([^\n]+)/i\<close>
\<close>

definition organization_rx :: regex where
  "organization_rx =
     Seq (Alt (lits ''Foundation'') (Alt (lits ''Organization'') (lits ''Funder'')))
       (Seq (Atom (Lit (of_char CHR '':''))) (Seq (Star Space) (Group (Plus NotNewline))))"

definition amount_rx :: regex where
  "amount_rx =
     Seq (Alt (lits ''Amount'') (Alt (lits ''Funding'') (lits ''Grant Size'')))
       (Seq (Atom (Lit (of_char CHR '':''))) (Seq (Star Space) (Group (Plus NotNewline))))"

definition deadline_rx :: regex where
  "deadline_rx =
     Seq (Alt (lits ''Deadline'') (Alt (lits ''Due'') (lits ''Application Due'')))
       (Seq (Atom (Lit (of_char CHR '':''))) (Seq (Star Space) (Group (Plus NotNewline))))"

text \<open>
  \<^verbatim>\<open>extractTitle\<close>: the argument is \<^verbatim>\<open>lines[0]\<close>; calling \<^verbatim>\<open>replace\<close> on
  \<^verbatim>\<open>undefined\<close> throws a \<^verbatim>\<open>TypeError\<close>.
\<close>

fun extractTitle :: "jsstring option \<Rightarrow> js_error + jsstring" where
  "extractTitle None = Inl TypeError"
| "extractTitle (Some firstLine) =
     Inr (trim (str_replace True foundation_prefix_rx []
            (str_replace True grant_prefix_rx []
              (str_replace False numbering_rx [] firstLine))))"

text \<open>
  \<^verbatim>\<open>match ? match[1].trim() : null\<close>, where calling \<^verbatim>\<open>trim\<close> on an unset
  group (\<^verbatim>\<open>undefined\<close>) throws a \<^verbatim>\<open>TypeError\<close>.
\<close>

definition match_field :: "regex \<Rightarrow> jsstring \<Rightarrow> js_error + jsstring option" where
  "match_field r text =
     (case str_match True r text of
        None \<Rightarrow> Inr None
      | Some None \<Rightarrow> Inl TypeError
      | Some (Some m1) \<Rightarrow> Inr (Some (trim m1)))"

definition extractOrganization :: "jsstring \<Rightarrow> js_error + jsstring option" where
  "extractOrganization text = match_field organization_rx text"

definition extractAmount :: "jsstring \<Rightarrow> js_error + jsstring option" where
  "extractAmount text = match_field amount_rx text"

definition extractDeadline :: "jsstring \<Rightarrow> js_error + jsstring option" where
  "extractDeadline text = match_field deadline_rx text"

text \<open>
  The object that \<^verbatim>\<open>parseGrantText\<close> pushes for one section; its fields are
  computed in the order of the object literal, and the first error ends the call.
\<close>

definition make_grant :: "jsstring \<Rightarrow> jsstring list \<Rightarrow> js_error + grant" where
  "make_grant section lines =
     (case extractTitle (index lines 0) of
        Inl e \<Rightarrow> Inl e
      | Inr t \<Rightarrow>
     (case extractOrganization section of
        Inl e \<Rightarrow> Inl e
      | Inr org \<Rightarrow>
     (case extractAmount section of
        Inl e \<Rightarrow> Inl e
      | Inr amt \<Rightarrow>
     (case extractDeadline section of
        Inl e \<Rightarrow> Inl e
      | Inr dl \<Rightarrow>
          Inr \<lparr>raw = section,
               title = Some t,
               organization = org,
               amount = amt,
               deadline = dl,
               description = section\<rparr>))))"

text \<open>
  The loop of \<^verbatim>\<open>parseGrantText\<close> over the sections, with the array \<open>grants\<close> that it
  pushes to.
\<close>

fun parse_sections :: "jsstring list \<Rightarrow> grant list \<Rightarrow> js_error + grant list" where
  "parse_sections [] grants = Inr grants"
| "parse_sections (section # sections) grants =
     (if length (trim section) > 50 then
        (let lines = filter (\<lambda>l. trim l \<noteq> []) (split_unit nl section) in
         if length lines > 0 then
           (case make_grant section lines of
              Inl e \<Rightarrow> Inl e
            | Inr g \<Rightarrow> parse_sections sections (grants @ [g]))
         else parse_sections sections grants)
      else parse_sections sections grants)"

definition parseGrantText :: "jsstring \<Rightarrow> js_error + grant list" where
  "parseGrantText text = parse_sections (split_rx section_rx text) []"

section \<open>The document renderer\<close>

text \<open>
  The objects of the \<^verbatim>\<open>docx\<close> library that the source builds, with the options it
  sets: text runs, paragraphs, table cells, rows and tables.
\<close>

datatype heading_level = HEADING_1 | HEADING_2 | HEADING_3

record text_run =
  run_text :: jsstring
  run_bold :: bool
  run_size :: "nat option"
  run_color :: "jsstring option"

record docx_paragraph =
  par_heading :: "heading_level option"
  par_children :: "text_run list"
  par_spacing_before :: "nat option"
  par_spacing_after :: "nat option"
  par_numbering :: "(jsstring \<times> nat) option"

datatype border_style = SINGLE

record border =
  border_style :: border_style
  border_size :: nat
  border_color :: jsstring

record borders =
  border_top :: border
  border_bottom :: border
  border_left :: border
  border_right :: border

datatype shading_type = CLEAR

record table_cell =
  cell_borders :: borders
  cell_width :: nat
  cell_shading :: "(jsstring \<times> shading_type) option"
  cell_margins :: "nat \<times> nat \<times> nat \<times> nat"
  cell_children :: "docx_paragraph list"

record table_row =
  row_children :: "table_cell list"

record table =
  table_width :: nat
  table_columnWidths :: "nat list"
  table_rows :: "table_row list"

datatype block = Par docx_paragraph | Tbl table

text \<open>\<^verbatim>\<open>new TextRun(s)\<close> and \<^verbatim>\<open>new Paragraph({...})\<close> with the options left out unset.\<close>

definition TextRun :: "jsstring \<Rightarrow> text_run" where
  "TextRun s = \<lparr>run_text = s, run_bold = False, run_size = None, run_color = None\<rparr>"

definition Paragraph :: "text_run list \<Rightarrow> docx_paragraph" where
  "Paragraph runs =
     \<lparr>par_heading = None, par_children = runs, par_spacing_before = None,
      par_spacing_after = None, par_numbering = None\<rparr>"

text \<open>A string or \<^verbatim>\<open>null\<close> in a condition: \<^verbatim>\<open>null\<close> and the empty string are falsy.\<close>

fun truthy :: "jsstring option \<Rightarrow> bool" where
  "truthy None = False"
| "truthy (Some s) = (s \<noteq> [])"

text \<open>\<^verbatim>\<open>createTableRow(label, value, borders)\<close>\<close>

definition createTableRow :: "jsstring \<Rightarrow> jsstring \<Rightarrow> borders \<Rightarrow> table_row" where
  "createTableRow label val bs =
     \<lparr>row_children =
        [\<lparr>cell_borders = bs,
          cell_width = 2800,
          cell_shading = Some (js ''D5E8F0'', CLEAR),
          cell_margins = (80, 80, 120, 120),
          cell_children =
            [Paragraph [\<lparr>run_text = label, run_bold = True, run_size = Some 22, run_color = None\<rparr>]]\<rparr>,
         \<lparr>cell_borders = bs,
          cell_width = 6560,
          cell_shading = None,
          cell_margins = (80, 80, 120, 120),
          cell_children =
            [Paragraph [\<lparr>run_text = val, run_bold = False, run_size = Some 22, run_color = None\<rparr>]]\<rparr>]\<rparr>"

text \<open>
  The body of the \<^verbatim>\<open>forEach\<close> callback of \<^verbatim>\<open>createGrantSections\<close>: what one grant
  at array index \<open>i\<close> pushes to \<open>sections\<close>. The guards are JavaScript conditions on
  the field values, and \<^verbatim>\<open>grant.title || 'Grant Opportunity'\<close> takes the literal for
  a falsy title.
\<close>

definition grant_rows :: "grant \<Rightarrow> borders \<Rightarrow> table_row list" where
  "grant_rows g bs =
     (let rows = [];
          rows = (if truthy (organization g)
                  then rows @ [createTableRow (js ''Organization'') (the (organization g)) bs]
                  else rows);
          rows = (if truthy (amount g)
                  then rows @ [createTableRow (js ''Amount'') (the (amount g)) bs]
                  else rows);
          rows = (if truthy (deadline g)
                  then rows @ [createTableRow (js ''Deadline'') (the (deadline g)) bs]
                  else rows)
      in rows)"

definition push_grant :: "block list \<Rightarrow> grant \<Rightarrow> nat \<Rightarrow> block list" where
  "push_grant sections g i =
     (let sections = sections @
            [Par ((Paragraph
               [TextRun (js_num (i + 1) @ js ''. '' @
                  (if truthy (title g) then the (title g) else js ''Grant Opportunity''))])
               \<lparr>par_heading := Some HEADING_3\<rparr>)];
          sections =
            (if truthy (organization g) \<or> truthy (amount g) \<or> truthy (deadline g) then
               (let b = \<lparr>border_style = SINGLE, border_size = 1, border_color = js ''CCCCCC''\<rparr>;
                    bs = \<lparr>border_top = b, border_bottom = b, border_left = b, border_right = b\<rparr>
                in sections @
                     [Tbl \<lparr>table_width = 100,
                           table_columnWidths = [2800, 6560],
                           table_rows = grant_rows g bs\<rparr>])
             else sections)
      in sections @
           [Par ((Paragraph [TextRun (description g)])
              \<lparr>par_spacing_before := Some 180, par_spacing_after := Some 360\<rparr>)])"

text \<open>\<^verbatim>\<open>grants.forEach((grant, index) => ...)\<close>, from index \<open>i\<close> on.\<close>

fun forEach_grant :: "grant list \<Rightarrow> nat \<Rightarrow> block list \<Rightarrow> block list" where
  "forEach_grant [] i sections = sections"
| "forEach_grant (g # gs) i sections = forEach_grant gs (i + 1) (push_grant sections g i)"

definition createGrantSections :: "grant list \<Rightarrow> block list" where
  "createGrantSections grants = forEach_grant grants 0 []"

record context_parameter =
  param_id :: jsstring
  param_label :: jsstring
  param_description :: jsstring

text \<open>The argument of \<^verbatim>\<open>generateGrantReportWord\<close>; \<open>None\<close> is \<^verbatim>\<open>null\<close>.\<close>

record report_request =
  req_text :: jsstring
  orgDescription :: "jsstring option"
  contextParameters :: "context_parameter list option"
  timestamp :: jsstring

text \<open>
  \<^verbatim>\<open>generateGrantReportWord\<close> up to the call of \<^verbatim>\<open>Packer.toBuffer\<close>: the children of
  the only section of the document, in order. The styles, the numbering definition, the
  page properties, the header and the footer are the same constants in every call. The
  date text \<^verbatim>\<open>new Date(timestamp).toLocaleDateString('en-US', ...)\<close> is computed by
  the JavaScript runtime and is the parameter \<open>fmt\<close>. An error of the parser ends the
  call.
\<close>

definition generateGrantReportWord ::
    "(jsstring \<Rightarrow> jsstring) \<Rightarrow> report_request \<Rightarrow> js_error + block list" where
  "generateGrantReportWord fmt data =
     (case parseGrantText (req_text data) of
        Inl e \<Rightarrow> Inl e
      | Inr grants \<Rightarrow>
          Inr ([Par ((Paragraph [TextRun (js ''Grant Prospecting Report'')])
                  \<lparr>par_heading := Some HEADING_1\<rparr>),
                Par ((Paragraph
                  [\<lparr>run_text = js ''Generated: '' @ fmt (timestamp data), run_bold = False,
                    run_size = Some 22, run_color = Some (js ''586069'')\<rparr>])
                  \<lparr>par_spacing_after := Some 240\<rparr>)]
               @ (if truthy (orgDescription data) then
                    [Par ((Paragraph [TextRun (js ''Organization Profile'')])
                       \<lparr>par_heading := Some HEADING_2\<rparr>),
                     Par ((Paragraph [TextRun (the (orgDescription data))])
                       \<lparr>par_spacing_after := Some 240\<rparr>)]
                  else [])
               @ (case contextParameters data of
                    None \<Rightarrow> []
                  | Some params \<Rightarrow>
                      if length params > 0 then
                        [Par ((Paragraph [TextRun (js ''Search Parameters'')])
                           \<lparr>par_heading := Some HEADING_2\<rparr>)]
                        @ map (\<lambda>param.
                            Par ((Paragraph
                              [\<lparr>run_text = param_label param @ js '': '', run_bold = True,
                                run_size = None, run_color = None\<rparr>,
                               TextRun (param_description param)])
                              \<lparr>par_numbering := Some (js ''bullets'', 0)\<rparr>)) params
                        @ [Par ((Paragraph [TextRun []])
                             \<lparr>par_spacing_after := Some 240\<rparr>)]
                      else [])
               @ [Par ((Paragraph [TextRun (js ''Grant Opportunities'')])
                    \<lparr>par_heading := Some HEADING_2\<rparr>)]
               @ createGrantSections grants))"

section \<open>Notions used in the statements\<close>

text \<open>
  The definitions of this section are not part of the source: they say in plain list
  terms what the patterns of the source match, and the lemmas below prove that the
  regular expressions compute exactly that.
\<close>

text \<open>A string begins with the given literal units (compared as the flag \<^verbatim>\<open>i\<close> says).\<close>

fun starts_with :: "bool \<Rightarrow> jsstring \<Rightarrow> jsstring \<Rightarrow> bool" where
  "starts_with ic [] s = True"
| "starts_with ic (p # ps) [] = False"
| "starts_with ic (p # ps) (c # cs) = (atom_ok ic (Lit p) c \<and> starts_with ic ps cs)"

text \<open>
  The start of a new grant entry: a numeric list marker (digits and a dot), or the word
  \<^verbatim>\<open>Grant\<close> or \<^verbatim>\<open>Foundation\<close>.
\<close>

definition digits_dot :: "jsstring \<Rightarrow> bool" where
  "digits_dot s \<longleftrightarrow> takeWhile is_digit s \<noteq> [] \<and> prefix (js ''.'') (dropWhile is_digit s)"

definition marker :: "jsstring \<Rightarrow> bool" where
  "marker s \<longleftrightarrow> digits_dot s \<or> prefix (js ''Grant'') s \<or> prefix (js ''Foundation'') s"

text \<open>
  The candidate sections of a text: it is cut at every blank line (two line feeds) that
  a marker follows, and the two line feeds are dropped.
\<close>

fun sections_from :: "jsstring \<Rightarrow> jsstring \<Rightarrow> jsstring list" where
  "sections_from cur [] = [rev cur]"
| "sections_from cur [x] = [rev (x # cur)]"
| "sections_from cur (x # y # ys) =
     (if x = nl \<and> y = nl \<and> marker ys then rev cur # sections_from [] ys
      else sections_from (x # cur) (y # ys))"

text \<open>Sections put together again, with a blank line between two of them.\<close>

fun join_sections :: "jsstring list \<Rightarrow> jsstring" where
  "join_sections [] = []"
| "join_sections [s] = s"
| "join_sections (s # t # ss) = s @ nl # nl # join_sections (t # ss)"

definition colon :: code_unit where
  "colon = 0x3A"

text \<open>
  A labelled field at the start of \<open>s\<close>: the label (in any letter case), a colon, and
  after the colon at least one unit that is not a line feed. Its value: after the colon
  all white space is skipped, line feeds included, and the text up to the next line feed
  (or the end) is taken and trimmed.
\<close>

definition field_hit :: "jsstring \<Rightarrow> jsstring \<Rightarrow> bool" where
  "field_hit l s \<longleftrightarrow>
     starts_with True (l @ [colon]) s \<and> (\<exists>c \<in> set (drop (length l + 1) s). c \<noteq> nl)"

definition field_value :: "jsstring \<Rightarrow> jsstring \<Rightarrow> jsstring" where
  "field_value l s =
     trim (takeWhile (\<lambda>c. c \<noteq> nl) (dropWhile is_space (drop (length l + 1) s)))"

text \<open>The field of the first label variant, in the order given, that is at the start of \<open>s\<close>.\<close>

fun labelled_value :: "jsstring list \<Rightarrow> jsstring \<Rightarrow> jsstring option" where
  "labelled_value [] s = None"
| "labelled_value (l # ls) s =
     (if field_hit l s then Some (field_value l s) else labelled_value ls s)"

text \<open>
  The field at the first position of the text where one of the label variants has a
  labelled field; \<open>None\<close> when there is no such position.
\<close>

fun first_labelled :: "jsstring list \<Rightarrow> jsstring \<Rightarrow> jsstring option" where
  "first_labelled ls [] = labelled_value ls []"
| "first_labelled ls (x # xs) =
     (case labelled_value ls (x # xs) of
        Some v \<Rightarrow> Some v
      | None \<Rightarrow> first_labelled ls xs)"

text \<open>The common tail \<^verbatim>\<open>\s*([^\n]+)\<close> and the common shape of the three field patterns.\<close>

definition ws_line :: regex where
  "ws_line = Seq (Star Space) (Group (Plus NotNewline))"

definition field_rx :: "string \<Rightarrow> string \<Rightarrow> string \<Rightarrow> regex" where
  "field_rx a b c =
     Seq (Alt (lits a) (Alt (lits b) (lits c)))
       (Seq (Atom (Lit (of_char CHR '':''))) (Seq (Star Space) (Group (Plus NotNewline))))"

text \<open>The record of a retained section, with the fields as the lemmas below describe them.\<close>

definition section_grant :: "jsstring \<Rightarrow> grant" where
  "section_grant s =
     \<lparr>raw = s,
      title = Some (trim (str_replace True foundation_prefix_rx []
                (str_replace True grant_prefix_rx []
                  (str_replace False numbering_rx []
                    (hd (filter (\<lambda>l. trim l \<noteq> []) (split_unit nl s))))))),
      organization = first_labelled [js ''Foundation'', js ''Organization'', js ''Funder''] s,
      amount = first_labelled [js ''Amount'', js ''Funding'', js ''Grant Size''] s,
      deadline = first_labelled [js ''Deadline'', js ''Due'', js ''Application Due''] s,
      description = s\<rparr>"

text \<open>
  The subsection of one grant in the document: the heading text takes the literal for a
  title that is \<^verbatim>\<open>null\<close> or empty, and a field is present when it is neither
  \<^verbatim>\<open>null\<close> nor empty.
\<close>

definition title_or_default :: "grant \<Rightarrow> jsstring" where
  "title_or_default g =
     (case title g of
        None \<Rightarrow> js ''Grant Opportunity''
      | Some t \<Rightarrow> if t = [] then js ''Grant Opportunity'' else t)"

definition present_fields :: "grant \<Rightarrow> (jsstring \<times> jsstring) list" where
  "present_fields g =
     concat (map (\<lambda>(label, v). case v of None \<Rightarrow> [] | Some s \<Rightarrow> if s = [] then [] else [(label, s)])
       [(js ''Organization'', organization g),
        (js ''Amount'', amount g),
        (js ''Deadline'', deadline g)])"

definition thin_borders :: borders where
  "thin_borders =
     \<lparr>border_top = \<lparr>border_style = SINGLE, border_size = 1, border_color = js ''CCCCCC''\<rparr>,
      border_bottom = \<lparr>border_style = SINGLE, border_size = 1, border_color = js ''CCCCCC''\<rparr>,
      border_left = \<lparr>border_style = SINGLE, border_size = 1, border_color = js ''CCCCCC''\<rparr>,
      border_right = \<lparr>border_style = SINGLE, border_size = 1, border_color = js ''CCCCCC''\<rparr>\<rparr>"

definition grant_subsection :: "nat \<Rightarrow> grant \<Rightarrow> block list" where
  "grant_subsection n g =
     [Par \<lparr>par_heading = Some HEADING_3,
           par_children = [TextRun (js_num n @ js ''. '' @ title_or_default g)],
           par_spacing_before = None, par_spacing_after = None, par_numbering = None\<rparr>]
     @ (if present_fields g = [] then []
        else [Tbl \<lparr>table_width = 100,
                   table_columnWidths = [2800, 6560],
                   table_rows = map (\<lambda>(label, v). createTableRow label v thin_borders)
                                  (present_fields g)\<rparr>])
     @ [Par \<lparr>par_heading = None,
             par_children = [TextRun (description g)],
             par_spacing_before = Some 180, par_spacing_after = Some 360,
             par_numbering = None\<rparr>]"

text \<open>The texts of the headings of one level in a list of blocks, in order.\<close>

definition heading_texts :: "heading_level \<Rightarrow> block list \<Rightarrow> jsstring list" where
  "heading_texts h bs =
     concat (map (\<lambda>b. case b of
                     Par p \<Rightarrow> if par_heading p = Some h
                              then [concat (map run_text (par_children p))] else []
                   | Tbl t \<Rightarrow> []) bs)"

section \<open>Facts about the matcher\<close>

lemma rx_m_adv:
  "(p', s', c') \<in> set (rx_m ic r (p, s, c)) \<Longrightarrow> p \<le> p' \<and> s' = drop (p' - p) s \<and> p' - p \<le> length s"
proof (induction ic r "(p, s, c)" arbitrary: p s c p' s' c' rule: rx_m.induct)
  case (4 ic a p x xs cap)
  show ?case
  proof (cases "(p', s', c') = (p, x # xs, cap)")
    case True
    then show ?thesis by simp
  next
    case False
    with 4 have ok: "atom_ok ic a x" and m: "(p', s', c') \<in> set (rx_m ic (Star a) (Suc p, xs, cap))"
      by (auto split: if_splits)
    from 4(1)[OF ok m] have le: "Suc p \<le> p'" and eq: "s' = drop (p' - Suc p) xs"
      and bd: "p' - Suc p \<le> length xs" by auto
    from le have "p' - p = Suc (p' - Suc p)" by arith
    with le eq bd show ?thesis by simp
  qed
next
  case (5 ic r1 r2 p s c)
  from 5(3) obtain p1 s1 c1 where
    m1: "(p1, s1, c1) \<in> set (rx_m ic r1 (p, s, c))" and
    m2: "(p', s', c') \<in> set (rx_m ic r2 (p1, s1, c1))"
    by auto
  from 5(1)[OF m1] have a: "p \<le> p1" "s1 = drop (p1 - p) s" "p1 - p \<le> length s" by auto
  from 5(2)[OF m1 m2] have b: "p1 \<le> p'" "s' = drop (p' - p1) s1" "p' - p1 \<le> length s1" by auto
  from a b show ?case by auto
qed (auto split: if_splits)

lemma rx_m_Seq_Star_Nil [simp]:
  "rx_m ic (Seq (Star a) r) (p, [], c) = rx_m ic r (p, [], c)"
  by simp

lemma rx_m_Seq_Star_Cons:
  "rx_m ic (Seq (Star a) r) (p, x # xs, c) =
     (if atom_ok ic a x then rx_m ic (Seq (Star a) r) (Suc p, xs, c) else []) @ rx_m ic r (p, x # xs, c)"
  by simp

lemma rx_m_Seq_Atom_Nil [simp]:
  "rx_m ic (Seq (Atom a) r) (p, [], c) = []"
  by simp

lemma rx_m_Seq_Atom_Cons:
  "rx_m ic (Seq (Atom a) r) (p, x # xs, c) = (if atom_ok ic a x then rx_m ic r (Suc p, xs, c) else [])"
  by simp

lemma js_Nil [simp]: "js [] = []"
  by (simp add: js_def)

lemma js_Cons [simp]: "js (x # xs) = of_char x # js xs"
  by (simp add: js_def)

lemma length_js [simp]: "length (js s) = length s"
  by (simp add: js_def)

lemma lits_Nil [simp]: "lits [] = Empty"
  by (simp add: lits_def)

lemma lits_Cons [simp]: "lits (x # xs) = Seq (Atom (Lit (of_char x))) (lits xs)"
  by (simp add: lits_def)

lemma rx_m_lits:
  "rx_m ic (lits l) (p, s, c) =
     (if starts_with ic (js l) s then [(p + length l, drop (length l) s, c)] else [])"
proof (induction l arbitrary: p s)
  case Nil
  then show ?case by simp
next
  case (Cons x l)
  show ?case
  proof (cases s)
    case Nil
    then show ?thesis by simp
  next
    case (Cons y ys)
    then show ?thesis using Cons.IH[of "Suc p" ys] by (simp del: atom_ok.simps)
  qed
qed

lemma rx_m_Seq_lits:
  "rx_m ic (Seq (lits l) r) (p, s, c) =
     (if starts_with ic (js l) s then rx_m ic r (p + length l, drop (length l) s, c) else [])"
  by (simp add: rx_m_lits)

lemma starts_with_prefix: "starts_with False l s \<longleftrightarrow> prefix l s"
proof (induction l arbitrary: s)
  case Nil
  then show ?case by simp
next
  case (Cons x l)
  then show ?case by (cases s) auto
qed

lemma canonicalize_non_letter:
  "\<not> (0x41 \<le> p \<and> p \<le> 0x5A) \<Longrightarrow> \<not> (0x61 \<le> p \<and> p \<le> 0x7A) \<Longrightarrow>
   canonicalize x = canonicalize p \<longleftrightarrow> x = p"
  unfolding canonicalize_def
  by (auto; unat_arith)

section \<open>The section pattern and the split\<close>

lemma star_digits_dot:
  "rx_m ic (Seq (Star Digit) (Atom (Lit (of_char CHR ''.'')))) (p, s, c) = [] \<longleftrightarrow>
     \<not> prefix (js ''.'') (dropWhile is_digit s)"
proof (induction s arbitrary: p)
  case Nil
  then show ?case by simp
next
  case (Cons x xs)
  have nd: "\<not> is_digit (of_char CHR ''.'')" by (simp add: is_digit_def)
  have cn: "canonicalize x = canonicalize (of_char CHR ''.'') \<longleftrightarrow> x = of_char CHR ''.''"
    by (rule canonicalize_non_letter) simp_all
  show ?case
    unfolding rx_m_Seq_Star_Cons using Cons.IH[of "Suc p"] nd cn
    by (auto)
qed

lemma rx_m_Seq_assoc:
  "rx_m ic (Seq (Seq a b) c) st = rx_m ic (Seq a (Seq b c)) st"
proof -
  have "concat (map (rx_m ic c) (concat (map (rx_m ic b) xs))) =
        concat (map (\<lambda>x. concat (map (rx_m ic c) (rx_m ic b x))) xs)" for xs
    by (induction xs) auto
  moreover have "rx_m ic (Seq b c) = (\<lambda>x. concat (map (rx_m ic c) (rx_m ic b x)))"
    by (rule ext) simp
  ultimately show ?thesis by simp
qed

lemma digits_dot_rx:
  "rx_m False (Seq (Plus Digit) (Atom (Lit (of_char CHR ''.'')))) (p, s, c) = [] \<longleftrightarrow> \<not> digits_dot s"
proof (cases s)
  case Nil
  then show ?thesis by (simp add: Plus_def digits_dot_def)
next
  case (Cons x xs)
  have "rx_m False (Seq (Plus Digit) (Atom (Lit (of_char CHR ''.'')))) (p, s, c) =
        (if is_digit x then rx_m False (Seq (Star Digit) (Atom (Lit (of_char CHR ''.'')))) (Suc p, xs, c) else [])"
    unfolding Plus_def rx_m_Seq_assoc Cons rx_m_Seq_Atom_Cons by simp
  then show ?thesis
    using star_digits_dot[of False "Suc p" xs c] Cons by (simp add: digits_dot_def)
qed

lemma marker_rx:
  "rx_m False (Alt (Seq (Plus Digit) (Atom (Lit (of_char CHR ''.''))))
                  (Alt (lits ''Grant'') (lits ''Foundation''))) (p, s, c) = [] \<longleftrightarrow> \<not> marker s"
proof -
  have g: "rx_m False (lits ''Grant'') (p, s, c) = [] \<longleftrightarrow> \<not> prefix (js ''Grant'') s"
    unfolding rx_m_lits starts_with_prefix by simp
  have f: "rx_m False (lits ''Foundation'') (p, s, c) = [] \<longleftrightarrow> \<not> prefix (js ''Foundation'') s"
    unfolding rx_m_lits starts_with_prefix by simp
  show ?thesis
    unfolding marker_def rx_m.simps(6) append_is_Nil_conv digits_dot_rx g f by blast
qed

lemma section_rx_m_short [simp]:
  "rx_m False section_rx (q, [], c) = []" "rx_m False section_rx (q, [x], c) = []"
  by (simp_all add: section_rx_def)

lemma section_rx_m:
  "rx_m False section_rx (q, x # y # ys, c) =
     (if x = nl \<and> y = nl \<and> marker ys then [(q + 2, ys, c)] else [])"
  unfolding section_rx_def rx_m_Seq_Atom_Cons rx_m.simps(9) marker_rx
  by (simp add: nl_def)

lemma split_rx_from_sections:
  "p \<le> q \<Longrightarrow> split_rx_from section_rx p q cur s = sections_from cur s"
proof (induction cur s arbitrary: p q rule: sections_from.induct)
  case (1 cur)
  then show ?case by simp
next
  case (2 cur x)
  then show ?case by simp
next
  case (3 cur x y ys)
  show ?case
  proof (cases "x = nl \<and> y = nl \<and> marker ys")
    case True
    with 3 show ?thesis
      by (subst split_rx_from.simps) (simp add: section_rx_m del: split_rx_from.simps)
  next
    case False
    with 3(2)[of p "Suc q"] 3(3) show ?thesis
      by (subst split_rx_from.simps) (auto simp add: section_rx_m simp del: split_rx_from.simps)
  qed
qed

lemma split_rx_sections: "split_rx section_rx s = sections_from [] s"
  by (cases s) (simp_all add: split_rx_def split_rx_from_sections del: split_rx_from.simps)

section \<open>The field patterns\<close>

lemma is_space_nl [simp]: "is_space nl"
  by (simp add: is_space_def nl_def)

lemma star_hd:
  "\<exists>tl. rx_m ic (Star a) (p, s, c) =
     (p + length (takeWhile (atom_ok ic a) s), dropWhile (atom_ok ic a) s, c) # tl"
proof (induction s arbitrary: p)
  case Nil
  then show ?case by simp
next
  case (Cons x xs)
  from Cons[of "Suc p"] show ?case by (auto simp del: atom_ok.simps)
qed

lemma group_line_Nil [simp]: "rx_m ic (Group (Plus NotNewline)) (p, [], c) = []"
  by (simp add: Plus_def)

lemma group_line_nl [simp]: "rx_m ic (Group (Plus NotNewline)) (p, nl # xs, c) = []"
  by (simp add: Plus_def)

lemma group_line_hd:
  assumes "x \<noteq> nl"
  shows "\<exists>p' s' tl. rx_m ic (Group (Plus NotNewline)) (p, x # xs, c) =
           (p', s', Some (takeWhile (\<lambda>c. c \<noteq> nl) (x # xs))) # tl"
proof -
  obtain tl where st: "rx_m ic (Star NotNewline) (Suc p, xs, c) =
      (Suc p + length (takeWhile (atom_ok ic NotNewline) xs), dropWhile (atom_ok ic NotNewline) xs, c) # tl"
    using star_hd by blast
  have ok: "atom_ok ic NotNewline = (\<lambda>c. c \<noteq> nl)"
    by (rule ext) simp
  have tk: "take (length (takeWhile (\<lambda>c. c \<noteq> nl) xs)) xs = takeWhile (\<lambda>c. c \<noteq> nl) xs"
    by (rule takeWhile_eq_take[symmetric])
  show ?thesis
    using assms st unfolding ok by (simp add: Plus_def tk)
qed

lemma ws_line_Nil [simp]: "rx_m ic ws_line (p, [], c) = []"
  by (simp add: ws_line_def Plus_def)

lemma ws_line_Cons:
  "rx_m ic ws_line (p, x # xs, c) =
     (if is_space x then rx_m ic ws_line (Suc p, xs, c) else []) @
     rx_m ic (Group (Plus NotNewline)) (p, x # xs, c)"
  unfolding ws_line_def rx_m_Seq_Star_Cons by simp

lemma ws_line_all_nl:
  "\<forall>x \<in> set t. x = nl \<Longrightarrow> rx_m ic ws_line (p, t, c) = []"
proof (induction t arbitrary: p)
  case Nil
  then show ?case by simp
next
  case (Cons x xs)
  then have "rx_m ic ws_line (Suc p, xs, c) = []" and "x = nl" by simp_all
  then show ?case
    by (simp add: ws_line_Cons del: rx_m.simps)
qed

lemma trim_all_space:
  assumes "\<forall>x \<in> set s. is_space x"
  shows "trim s = []"
proof -
  from assms have h: "dropWhile is_space s = []" by simp
  show ?thesis unfolding trim_def h by simp
qed

lemma ws_line_some:
  "\<exists>x \<in> set t. x \<noteq> nl \<Longrightarrow>
   \<exists>p' s' m tl. rx_m ic ws_line (p, t, c) = (p', s', Some m) # tl \<and>
      trim m = trim (takeWhile (\<lambda>c. c \<noteq> nl) (dropWhile is_space t))"
proof (induction t arbitrary: p)
  case Nil
  then show ?case by simp
next
  case (Cons x xs)
  show ?case
  proof (cases "is_space x")
    case False
    then have "x \<noteq> nl" by auto
    from group_line_hd[OF this, of ic p xs c] obtain p' s' tl where
      "rx_m ic (Group (Plus NotNewline)) (p, x # xs, c) =
         (p', s', Some (takeWhile (\<lambda>c. c \<noteq> nl) (x # xs))) # tl" by blast
    with False show ?thesis
      by (simp add: ws_line_Cons del: rx_m.simps)
  next
    case True
    show ?thesis
    proof (cases "\<exists>y \<in> set xs. y \<noteq> nl")
      case ex: True
      from Cons.IH[OF ex, of "Suc p"] obtain p' s' m tl where
        "rx_m ic ws_line (Suc p, xs, c) = (p', s', Some m) # tl"
        "trim m = trim (takeWhile (\<lambda>c. c \<noteq> nl) (dropWhile is_space xs))" by blast
      with True show ?thesis
        by (simp add: ws_line_Cons del: rx_m.simps)
    next
      case all: False
      then have a: "\<forall>y \<in> set xs. y = nl" by blast
      with Cons.prems have xn: "x \<noteq> nl" by auto
      have tw: "takeWhile (\<lambda>c. c \<noteq> nl) (x # xs) = [x]"
        using xn a by (cases xs) auto
      have dw: "dropWhile is_space (x # xs) = []"
        using True a by auto
      have t1: "trim [x] = []"
        using True by (simp add: trim_all_space)
      have t0: "trim [] = []"
        by (simp add: trim_def)
      from group_line_hd[OF xn, of ic p xs c] obtain p' s' tl where
        "rx_m ic (Group (Plus NotNewline)) (p, x # xs, c) = (p', s', Some [x]) # tl"
        unfolding tw by blast
      then show ?thesis
        unfolding dw ws_line_Cons ws_line_all_nl[OF a] using True t1 t0
        by (simp del: rx_m.simps)
    qed
  qed
qed

lemma starts_with_append:
  "starts_with ic (a @ b) s \<longleftrightarrow> starts_with ic a s \<and> starts_with ic b (drop (length a) s)"
proof (induction a arbitrary: s)
  case Nil
  then show ?case by simp
next
  case step: (Cons x a)
  show ?case
  proof (cases s)
    case Nil
    then show ?thesis by (cases b) simp_all
  next
    case (Cons y ys)
    with step[of ys] show ?thesis by (simp del: atom_ok.simps)
  qed
qed

lemma canonicalize_colon [simp]: "canonicalize x = canonicalize colon \<longleftrightarrow> x = colon"
  by (rule canonicalize_non_letter) (simp_all add: colon_def)

lemma field_hit_iff:
  "field_hit l s \<longleftrightarrow>
     starts_with True l s \<and> (\<exists>xs. drop (length l) s = colon # xs \<and> (\<exists>c \<in> set xs. c \<noteq> nl))"
proof -
  have d: "drop (length l + 1) s = tl (drop (length l) s)"
    by (simp add: drop_Suc drop_tl)
  have "starts_with True [colon] t \<longleftrightarrow> (\<exists>xs. t = colon # xs)" for t
    by (cases t) auto
  then show ?thesis
    unfolding field_hit_def starts_with_append d by auto
qed

lemma colon_ws_line:
  "rx_m True (Seq (Atom (Lit colon)) ws_line) (p, t, c) =
     (case t of [] \<Rightarrow> [] | x # xs \<Rightarrow> if x = colon then rx_m True ws_line (Suc p, xs, c) else [])"
  by (cases t) (simp_all add: rx_m_Seq_Atom_Cons del: rx_m.simps)

lemma label_miss:
  "\<not> field_hit (js l) s \<Longrightarrow> rx_m True (Seq (lits l) (Seq (Atom (Lit colon)) ws_line)) (q, s, c) = []"
  unfolding rx_m_Seq_lits colon_ws_line field_hit_iff
  by (auto split: list.splits simp: ws_line_all_nl)

lemma label_hit:
  assumes "field_hit (js l) s"
  shows "\<exists>p' s' m tl.
     rx_m True (Seq (lits l) (Seq (Atom (Lit colon)) ws_line)) (q, s, c) = (p', s', Some m) # tl \<and>
     trim m = field_value (js l) s"
proof -
  from assms obtain xs where sw: "starts_with True (js l) s" and d: "drop (length l) s = colon # xs"
    and ex: "\<exists>c \<in> set xs. c \<noteq> nl"
    unfolding field_hit_iff by auto
  have "drop (length (js l) + 1) s = drop 1 (drop (length l) s)"
    by (simp only: drop_drop add.commute length_js)
  then have d': "drop (length (js l) + 1) s = xs"
    using d by simp
  from ws_line_some[OF ex, of True "Suc (q + length l)" c] show ?thesis
    unfolding rx_m_Seq_lits colon_ws_line field_value_def d' using sw d by simp
qed

lemma field_rx_alts:
  "rx_m True (field_rx a b c) st =
     rx_m True (Seq (lits a) (Seq (Atom (Lit colon)) ws_line)) st @
     rx_m True (Seq (lits b) (Seq (Atom (Lit colon)) ws_line)) st @
     rx_m True (Seq (lits c) (Seq (Atom (Lit colon)) ws_line)) st"
  by (simp add: field_rx_def ws_line_def colon_def)

lemma field_rx_miss:
  "labelled_value [js a, js b, js c] s = None \<Longrightarrow> rx_m True (field_rx a b c) (q, s, cap) = []"
  unfolding field_rx_alts by (simp add: label_miss split: if_splits del: rx_m.simps)

lemma field_rx_hit:
  assumes "labelled_value [js a, js b, js c] s = Some v"
  shows "\<exists>p' s' m tl. rx_m True (field_rx a b c) (q, s, cap) = (p', s', Some m) # tl \<and> trim m = v"
proof (cases "field_hit (js a) s")
  case True
  with assms have "v = field_value (js a) s" by simp
  with label_hit[OF True, of q cap] show ?thesis
    unfolding field_rx_alts by (auto simp del: rx_m.simps)
next
  case na: False
  show ?thesis
  proof (cases "field_hit (js b) s")
    case True
    with assms na have "v = field_value (js b) s" by simp
    with label_hit[OF True, of q cap] label_miss[OF na, of q cap] show ?thesis
      unfolding field_rx_alts by (auto simp del: rx_m.simps)
  next
    case nb: False
    with assms na have hc: "field_hit (js c) s" and "v = field_value (js c) s"
      by (simp_all split: if_splits)
    with label_hit[OF hc, of q cap] label_miss[OF na, of q cap] label_miss[OF nb, of q cap]
    show ?thesis
      unfolding field_rx_alts by (auto simp del: rx_m.simps)
  qed
qed

lemma field_rx_exec:
  "case rx_exec_from True (field_rx a b c) q s of
     None \<Rightarrow> first_labelled [js a, js b, js c] s = None
   | Some (st, e, rest, cap) \<Rightarrow>
       (\<exists>m. cap = Some m \<and> first_labelled [js a, js b, js c] s = Some (trim m))"
proof (induction s arbitrary: q)
  case Nil
  show ?case
  proof (cases "labelled_value [js a, js b, js c] []")
    case None
    from field_rx_miss[OF this, of q None] None show ?thesis by (simp del: rx_m.simps)
  next
    case (Some v)
    from field_rx_hit[OF this, of q None] Some show ?thesis by (auto simp del: rx_m.simps)
  qed
next
  case (Cons x xs)
  show ?case
  proof (cases "labelled_value [js a, js b, js c] (x # xs)")
    case None
    have fl: "first_labelled [js a, js b, js c] (x # xs) = first_labelled [js a, js b, js c] xs"
      by (simp only: first_labelled.simps None option.case)
    have ex: "rx_exec_from True (field_rx a b c) q (x # xs) =
              rx_exec_from True (field_rx a b c) (Suc q) xs"
      by (simp only: rx_exec_from.simps field_rx_miss[OF None] list.case)
    show ?thesis
      unfolding fl ex by (rule Cons)
  next
    case (Some v)
    from field_rx_hit[OF this, of q None] Some show ?thesis by (auto simp del: rx_m.simps)
  qed
qed

lemma match_field_rx:
  "match_field (field_rx a b c) s = Inr (first_labelled [js a, js b, js c] s)"
  using field_rx_exec[where a = a and b = b and c = c and q = 0 and s = s]
  by (auto simp: match_field_def str_match_def rx_exec_def split: option.splits)

lemma extractOrganization_eq:
  "extractOrganization s =
     Inr (first_labelled [js ''Foundation'', js ''Organization'', js ''Funder''] s)"
  unfolding extractOrganization_def organization_rx_def field_rx_def[symmetric]
  by (rule match_field_rx)

lemma extractAmount_eq:
  "extractAmount s = Inr (first_labelled [js ''Amount'', js ''Funding'', js ''Grant Size''] s)"
  unfolding extractAmount_def amount_rx_def field_rx_def[symmetric]
  by (rule match_field_rx)

lemma extractDeadline_eq:
  "extractDeadline s =
     Inr (first_labelled [js ''Deadline'', js ''Due'', js ''Application Due''] s)"
  unfolding extractDeadline_def deadline_rx_def field_rx_def[symmetric]
  by (rule match_field_rx)

section \<open>The records of the parser\<close>

lemma trim_eq_Nil: "trim s = [] \<longleftrightarrow> (\<forall>c \<in> set s. is_space c)"
proof
  assume "trim s = []"
  then have "\<forall>c \<in> set (dropWhile is_space s). is_space c"
    by (simp add: trim_def)
  then have "dropWhile is_space s = []"
    using hd_dropWhile[of is_space s] by (cases "dropWhile is_space s") auto
  then show "\<forall>c \<in> set s. is_space c" by simp
next
  assume "\<forall>c \<in> set s. is_space c"
  then show "trim s = []" by (rule trim_all_space)
qed

lemma split_unit_from_covers:
  "c \<in> set cur \<union> set s \<Longrightarrow> c \<noteq> d \<Longrightarrow> \<exists>l \<in> set (split_unit_from d cur s). c \<in> set l"
  by (induction s arbitrary: cur) auto

lemma lines_nonempty:
  assumes "trim s \<noteq> []"
  shows "filter (\<lambda>l. trim l \<noteq> []) (split_unit nl s) \<noteq> []"
proof -
  from assms obtain c where c: "c \<in> set s" "\<not> is_space c"
    unfolding trim_eq_Nil by blast
  then have "c \<noteq> nl" by auto
  with c split_unit_from_covers[of c "[]" s nl] obtain l where
    l: "l \<in> set (split_unit nl s)" "c \<in> set l"
    unfolding split_unit_def by auto
  with c have "trim l \<noteq> []" unfolding trim_eq_Nil by blast
  with l show ?thesis by (auto simp: filter_empty_conv)
qed

lemma make_grant_eq:
  assumes "filter (\<lambda>l. trim l \<noteq> []) (split_unit nl s) \<noteq> []"
  shows "make_grant s (filter (\<lambda>l. trim l \<noteq> []) (split_unit nl s)) = Inr (section_grant s)"
proof -
  have "index (filter (\<lambda>l. trim l \<noteq> []) (split_unit nl s)) 0 =
        Some (hd (filter (\<lambda>l. trim l \<noteq> []) (split_unit nl s)))"
    using assms by (simp add: index_def hd_conv_nth)
  then show ?thesis
    by (simp add: make_grant_def section_grant_def extractOrganization_eq extractAmount_eq
        extractDeadline_eq)
qed

lemma parse_sections_eq:
  "parse_sections secs acc =
     Inr (acc @ map section_grant (filter (\<lambda>s. 50 < length (trim s)) secs))"
proof (induction secs arbitrary: acc)
  case Nil
  then show ?case by simp
next
  case (Cons s secs)
  show ?case
  proof (cases "50 < length (trim s)")
    case True
    then have "trim s \<noteq> []" by auto
    from lines_nonempty[OF this] make_grant_eq[OF lines_nonempty[OF this]] True Cons
    show ?thesis by (simp add: Let_def)
  next
    case False
    with Cons show ?thesis by simp
  qed
qed

lemma parseGrantText_eq:
  "parseGrantText t =
     Inr (map section_grant (filter (\<lambda>s. 50 < length (trim s)) (split_rx section_rx t)))"
  by (simp add: parseGrantText_def parse_sections_eq)

section \<open>Sections of a text\<close>

lemma not_digit_nl [simp]: "\<not> is_digit nl"
  by (simp add: is_digit_def nl_def)

lemma prefix_append_nl:
  assumes "nl \<notin> set l"
  shows "prefix l (ys @ nl # t) \<longleftrightarrow> prefix l ys"
proof
  assume "prefix l (ys @ nl # t)"
  then consider "prefix l ys" | us where "us \<noteq> []" "prefix us (nl # t)" "l = ys @ us"
    unfolding prefix_append by (cases "prefix l ys") auto
  then show "prefix l ys"
  proof cases
    case 1
    then show ?thesis .
  next
    case 2
    then have "nl \<in> set l" by (cases us) auto
    with assms show ?thesis by simp
  qed
next
  assume "prefix l ys"
  then show "prefix l (ys @ nl # t)" by (rule prefix_prefix)
qed

lemma digits_dot_append_nl: "digits_dot (ys @ nl # t) \<longleftrightarrow> digits_dot ys"
proof (cases "\<forall>x \<in> set ys. is_digit x")
  case True
  then have d1: "dropWhile is_digit (ys @ nl # t) = nl # t"
    by (simp add: dropWhile_append)
  from True have d2: "dropWhile is_digit ys = []"
    by simp
  show ?thesis
    unfolding digits_dot_def d1 d2 by (simp add: nl_def)
next
  case False
  then obtain x where x: "x \<in> set ys" "\<not> is_digit x" by blast
  then have tw: "takeWhile is_digit (ys @ nl # t) = takeWhile is_digit ys"
    and dw: "dropWhile is_digit (ys @ nl # t) = dropWhile is_digit ys @ nl # t"
    by (simp_all add: takeWhile_append1 dropWhile_append1)
  from x have ne: "dropWhile is_digit ys \<noteq> []" by auto
  then obtain z zs where z: "dropWhile is_digit ys = z # zs" by (cases "dropWhile is_digit ys") auto
  show ?thesis
    unfolding digits_dot_def tw dw z by simp
qed

lemma marker_append_nl: "marker (ys @ nl # t) \<longleftrightarrow> marker ys"
proof -
  have g: "nl \<notin> set (js ''Grant'')" and f: "nl \<notin> set (js ''Foundation'')"
    by (simp_all add: nl_def)
  show ?thesis
    unfolding marker_def digits_dot_append_nl prefix_append_nl[OF g] prefix_append_nl[OF f] ..
qed

lemma not_marker_nl: "\<not> marker (nl # t)"
  using marker_append_nl[of "[]" t] by (simp add: marker_def digits_dot_def)

lemma sections_from_append:
  "marker b \<Longrightarrow>
   sections_from cur (a @ nl # nl # b) = sections_from cur a @ sections_from [] b"
proof (induction cur a rule: sections_from.induct)
  case (1 cur)
  then show ?case by simp
next
  case (2 cur x)
  then show ?case by (simp add: not_marker_nl)
next
  case (3 cur x y ys)
  then show ?case by (simp add: marker_append_nl)
qed

lemma sections_from_sublist:
  "sec \<in> set (sections_from cur s) \<Longrightarrow> sublist sec (rev cur @ s)"
proof (induction cur s rule: sections_from.induct)
  case (1 cur)
  then show ?case by simp
next
  case (2 cur x)
  then show ?case by simp
next
  case (3 cur x y ys)
  show ?case
  proof (cases "x = nl \<and> y = nl \<and> marker ys")
    case True
    with 3(3) consider "sec = rev cur" | "sec \<in> set (sections_from [] ys)" by auto
    then show ?thesis
    proof cases
      case 1
      then show ?thesis by (simp add: sublist_append_rightI)
    next
      case 2
      from 3(1)[OF True 2] have "sublist sec ys" by simp
      then obtain ps ss where "ys = ps @ sec @ ss"
        unfolding sublist_def by blast
      then have "rev cur @ x # y # ys = (rev cur @ x # y # ps) @ sec @ ss"
        by simp
      then show ?thesis
        unfolding sublist_def by blast
    qed
  next
    case False
    with 3 show ?thesis by auto
  qed
qed

lemma dropWhile_keeps:
  "\<not> P x \<Longrightarrow> \<exists>ps'. dropWhile P (ps @ x # rest) = ps' @ x # rest"
  by (induction ps) auto

lemma trim_keeps_core:
  assumes "sublist m b" "m \<noteq> []" "\<not> is_space (hd m)" "\<not> is_space (last m)"
  shows "sublist m (trim b)"
proof -
  from assms(1) obtain ps ss where b: "b = ps @ m @ ss" by (auto simp: sublist_def)
  from assms(2) obtain x m' where m: "m = x # m'" by (cases m) auto
  from assms(2) obtain m'' z where m2: "m = m'' @ [z]" by (cases m rule: rev_cases) auto
  from assms(3) m have "\<not> is_space x" by simp
  from dropWhile_keeps[where P = is_space and x = x, OF this, of ps "m' @ ss"] obtain ps' where
    d1: "dropWhile is_space b = ps' @ m @ ss" unfolding b m by auto
  from assms(4) m2 have "\<not> is_space z" by simp
  from dropWhile_keeps[where P = is_space and x = z, OF this, of "rev ss" "rev m'' @ rev ps'"] obtain ss' where
    d2: "dropWhile is_space (rev (dropWhile is_space b)) = ss' @ rev m @ rev ps'"
    unfolding d1 m2 by auto
  have "trim b = ps' @ m @ rev ss'"
    unfolding trim_def d2 by simp
  then show ?thesis by (auto simp: sublist_def)
qed

lemma trim_core:
  "trim a = [] \<or> (\<not> is_space (hd (trim a)) \<and> \<not> is_space (last (trim a)))"
proof (cases "trim a = []")
  case True
  then show ?thesis by simp
next
  case False
  define d where "d = dropWhile is_space a"
  define e where "e = dropWhile is_space (rev d)"
  have t: "trim a = rev e" by (simp add: trim_def d_def e_def)
  with False have ene: "e \<noteq> []" by simp
  then have he: "\<not> is_space (hd e)"
    unfolding e_def using hd_dropWhile by blast
  from ene have dne: "d \<noteq> []" unfolding e_def by auto
  then have hd: "\<not> is_space (hd d)"
    unfolding d_def using hd_dropWhile by blast
  have "suffix e (rev d)" unfolding e_def by (rule suffix_dropWhile)
  with ene have "last e = last (rev d)"
    by (auto simp: suffix_def)
  with dne have le: "last e = hd d" by (simp add: last_rev)
  show ?thesis
    unfolding t using ene he hd le by (simp add: hd_rev last_rev)
qed

lemma sublist_trim: "sublist (trim a) a"
proof -
  obtain p1 where p1: "a = p1 @ dropWhile is_space a"
    using suffix_dropWhile[of is_space a] unfolding suffix_def by blast
  obtain p2 where p2: "rev (dropWhile is_space a) = p2 @ dropWhile is_space (rev (dropWhile is_space a))"
    using suffix_dropWhile[of is_space "rev (dropWhile is_space a)"] unfolding suffix_def by blast
  have "dropWhile is_space a = rev (rev (dropWhile is_space a))" by simp
  also have "\<dots> = trim a @ rev p2"
    by (subst p2) (simp add: trim_def)
  finally have "a = p1 @ trim a @ rev p2"
    using p1 by simp
  then show ?thesis
    unfolding sublist_def by blast
qed

lemma trim_sublist_length:
  assumes "sublist a b"
  shows "length (trim a) \<le> length (trim b)"
proof (cases "trim a = []")
  case True
  then show ?thesis by simp
next
  case False
  with trim_core[of a] have c: "\<not> is_space (hd (trim a))" "\<not> is_space (last (trim a))" by auto
  from sublist_trim[of a] obtain p1 s1 where "a = p1 @ trim a @ s1"
    unfolding sublist_def by blast
  moreover from assms obtain p2 s2 where "b = p2 @ a @ s2"
    unfolding sublist_def by blast
  ultimately have "b = (p2 @ p1) @ trim a @ (s1 @ s2)" by simp
  then have "sublist (trim a) b"
    unfolding sublist_def by blast
  from trim_keeps_core[OF this False c] show ?thesis
    by (rule sublist_length_le)
qed

lemma sections_trim_le:
  "sec \<in> set (split_rx section_rx t) \<Longrightarrow> length (trim sec) \<le> length (trim t)"
  unfolding split_rx_sections
  using sections_from_sublist[of sec "[]" t] trim_sublist_length by simp

lemma sections_from_not_Nil: "sections_from cur s \<noteq> []"
  by (induction cur s rule: sections_from.induct) auto

lemma join_sections_from: "join_sections (sections_from cur s) = rev cur @ s"
proof (induction cur s rule: sections_from.induct)
  case (1 cur)
  then show ?case by simp
next
  case (2 cur x)
  then show ?case by simp
next
  case (3 cur x y ys)
  show ?case
  proof (cases "x = nl \<and> y = nl \<and> marker ys")
    case True
    obtain z zs where z: "sections_from [] ys = z # zs"
      using sections_from_not_Nil[of "[]" ys] by (cases "sections_from [] ys") auto
    from 3(1)[OF True] True show ?thesis
      by (simp add: z)
  next
    case False
    with 3(2) show ?thesis by auto
  qed
qed

section \<open>The blocks of the renderer\<close>

lemma truthy_iff: "truthy v \<longleftrightarrow> (\<exists>s. v = Some s \<and> s \<noteq> [])"
  by (cases v) auto

lemma grant_rows_eq:
  "grant_rows g bs = map (\<lambda>(label, v). createTableRow label v bs) (present_fields g)"
  by (cases "organization g"; cases "amount g"; cases "deadline g")
     (simp_all add: grant_rows_def present_fields_def)

lemma present_fields_Nil:
  "present_fields g = [] \<longleftrightarrow> \<not> (truthy (organization g) \<or> truthy (amount g) \<or> truthy (deadline g))"
  by (cases "organization g"; cases "amount g"; cases "deadline g")
     (simp_all add: present_fields_def)

lemma push_grant_eq: "push_grant acc g i = acc @ grant_subsection (i + 1) g"
proof -
  have t: "(if truthy (title g) then the (title g) else js ''Grant Opportunity'') = title_or_default g"
    by (cases "title g") (simp_all add: title_or_default_def)
  show ?thesis
    unfolding push_grant_def t Let_def grant_subsection_def grant_rows_eq present_fields_Nil
    by (simp add: Paragraph_def thin_borders_def)
qed

lemma forEach_grant_eq:
  "forEach_grant gs i acc = acc @ concat (map (\<lambda>(j, g). grant_subsection (j + 1) g) (enumerate i gs))"
  by (induction gs arbitrary: i acc) (simp_all add: push_grant_eq)

lemma createGrantSections_eq:
  "createGrantSections gs = concat (map (\<lambda>(j, g). grant_subsection (j + 1) g) (enumerate 0 gs))"
  by (simp add: createGrantSections_def forEach_grant_eq)

lemma heading_texts_append [simp]:
  "heading_texts h (xs @ ys) = heading_texts h xs @ heading_texts h ys"
  by (simp add: heading_texts_def)

lemma heading_texts_Nil [simp]: "heading_texts h [] = []"
  by (simp add: heading_texts_def)

lemma heading3_subsection:
  "heading_texts HEADING_3 (grant_subsection n g) = [js_num n @ js ''. '' @ title_or_default g]"
  by (simp add: heading_texts_def grant_subsection_def TextRun_def)

lemma heading2_subsection: "heading_texts HEADING_2 (grant_subsection n g) = []"
  by (simp add: heading_texts_def grant_subsection_def TextRun_def)

lemma heading3_sections:
  "heading_texts HEADING_3 (concat (map (\<lambda>(j, g). grant_subsection (j + 1) g) (enumerate i gs))) =
     map (\<lambda>(j, g). js_num (j + 1) @ js ''. '' @ title_or_default g) (enumerate i gs)"
  by (induction gs arbitrary: i) (simp_all add: heading3_subsection)

lemma heading2_sections:
  "heading_texts HEADING_2 (concat (map (\<lambda>(j, g). grant_subsection (j + 1) g) (enumerate i gs))) = []"
  by (induction gs arbitrary: i) (simp_all add: heading2_subsection)

lemma heading_texts_Cons:
  "heading_texts h (b # bs) =
     (case b of
        Par p \<Rightarrow> if par_heading p = Some h then [concat (map run_text (par_children p))] else []
      | Tbl t \<Rightarrow> []) @ heading_texts h bs"
  by (simp add: heading_texts_def)

lemma heading_texts_plain:
  "heading_texts h (map (\<lambda>x. Par \<lparr>par_heading = None, par_children = f x,
      par_spacing_before = a, par_spacing_after = b, par_numbering = n\<rparr>) xs) = []"
  by (induction xs) (simp_all add: heading_texts_Cons)

lemma generate_heading3:
  "\<exists>gs bs. parseGrantText (req_text data) = Inr gs \<and>
      generateGrantReportWord fmt data = Inr bs \<and>
      heading_texts HEADING_3 bs =
        map (\<lambda>(j, g). js_num (j + 1) @ js ''. '' @ title_or_default g) (enumerate 0 gs)"
proof -
  obtain gs where p: "parseGrantText (req_text data) = Inr gs"
    using parseGrantText_eq by blast
  show ?thesis
    unfolding p generateGrantReportWord_def createGrantSections_eq
    using heading3_sections[of 0 gs]
    by (simp add: heading_texts_Cons heading_texts_plain Paragraph_def split: option.splits)
qed

lemma generate_heading2:
  "\<exists>bs. generateGrantReportWord fmt data = Inr bs \<and>
      heading_texts HEADING_2 bs =
        (if truthy (orgDescription data) then [js ''Organization Profile''] else []) @
        (if (case contextParameters data of None \<Rightarrow> False | Some ps \<Rightarrow> ps \<noteq> [])
         then [js ''Search Parameters''] else []) @
        [js ''Grant Opportunities'']"
proof -
  obtain gs where p: "parseGrantText (req_text data) = Inr gs"
    using parseGrantText_eq by blast
  show ?thesis
    unfolding p generateGrantReportWord_def createGrantSections_eq
    using heading2_sections[of 0 gs]
    by (simp add: heading_texts_Cons heading_texts_plain Paragraph_def TextRun_def
        split: option.splits)
qed

section \<open>The claims\<close>

subsection \<open>Parsing the example entry\<close>

text \<open>
  Claim C1. Parsing the example text of the specification (a numbered first line, the
  three labelled lines and a line of description, separated by line feeds) yields exactly
  one record, with organization \<^verbatim>\<open>XYZ Corp\<close>, amount \<^verbatim>\<open>$10,000\<close>, deadline
  \<^verbatim>\<open>2026-01-01\<close> and title \<^verbatim>\<open>Foundation ABC\<close>; its raw text and description are
  the whole input.
\<close>

theorem parse_example_record:
  "parseGrantText (js ''1. Foundation ABC\<newline>Foundation: XYZ Corp\<newline>Amount: $10,000\<newline>Deadline: 2026-01-01\<newline>Some description text padding to exceed fifty characters total.'')
   = Inr [\<lparr>raw = js ''1. Foundation ABC\<newline>Foundation: XYZ Corp\<newline>Amount: $10,000\<newline>Deadline: 2026-01-01\<newline>Some description text padding to exceed fifty characters total.'',
           title = Some (js ''Foundation ABC''),
           organization = Some (js ''XYZ Corp''),
           amount = Some (js ''$10,000''),
           deadline = Some (js ''2026-01-01''),
           description = js ''1. Foundation ABC\<newline>Foundation: XYZ Corp\<newline>Amount: $10,000\<newline>Deadline: 2026-01-01\<newline>Some description text padding to exceed fifty characters total.''\<rparr>]"
  by code_simp

subsection \<open>The length threshold\<close>

text \<open>
  Claim C2 as stated keeps every candidate section whose trimmed length is at least 50.
  The test of the source is \<^verbatim>\<open>section.trim().length > 50\<close>: a text of exactly 50
  code units is one candidate section and is discarded.
\<close>

theorem threshold_counterexample:
  "length (trim (js ''Grant: Arts fund. Amount: $5,000. Due: 2026-01-01.'')) = 50 \<and>
   split_rx section_rx (js ''Grant: Arts fund. Amount: $5,000. Due: 2026-01-01.'') =
     [js ''Grant: Arts fund. Amount: $5,000. Due: 2026-01-01.''] \<and>
   parseGrantText (js ''Grant: Arts fund. Amount: $5,000. Due: 2026-01-01.'') = Inr []"
  by code_simp

text \<open>
  Claim C2, amended. The records of \<open>parseGrantText\<close> are, in order, exactly the candidate
  sections whose trimmed length is over 50 (a section of trimmed length 50 or less is
  discarded), and a text whose own trimmed length is at most 50 (in particular under 50)
  gives the empty list.
\<close>

theorem parse_threshold:
  "(\<exists>gs. parseGrantText t = Inr gs \<and>
         map raw gs = filter (\<lambda>s. 50 < length (trim s)) (split_rx section_rx t)) \<and>
   (length (trim t) \<le> 50 \<longrightarrow> parseGrantText t = Inr [])"
proof
  show "\<exists>gs. parseGrantText t = Inr gs \<and>
         map raw gs = filter (\<lambda>s. 50 < length (trim s)) (split_rx section_rx t)"
    unfolding parseGrantText_eq by (simp add: section_grant_def comp_def)
next
  show "length (trim t) \<le> 50 \<longrightarrow> parseGrantText t = Inr []"
  proof
    assume le: "length (trim t) \<le> 50"
    have "filter (\<lambda>s. 50 < length (trim s)) (split_rx section_rx t) = []"
      unfolding filter_empty_conv using sections_trim_le[of _ t] le by fastforce
    then show "parseGrantText t = Inr []"
      unfolding parseGrantText_eq by simp
  qed
qed

text \<open>A short text, with white space around it, at which the hypothesis holds.\<close>

theorem parse_threshold_witness:
  "length (trim (js ''  Grant: tiny note  '')) \<le> 50 \<and>
   parseGrantText (js ''  Grant: tiny note  '') = Inr []"
proof -
  have h: "length (trim (js ''  Grant: tiny note  '')) \<le> 50"
    by code_simp
  with parse_threshold[of "js ''  Grant: tiny note  ''"] show ?thesis
    by blast
qed

subsection \<open>Order of the records\<close>

text \<open>
  Claim C6. The candidate sections of a text, joined again with blank lines, are the text,
  and the records of \<open>parseGrantText\<close> are the retained sections in that order, one record
  for one section. When a chunk \<open>b\<close> begins with a marker, so that the blank line before it
  is a section boundary, parsing \<open>a\<close>, a blank line and \<open>b\<close> yields the records of \<open>a\<close>
  followed by the records of \<open>b\<close>.
\<close>

theorem parse_order_preserving:
  "(\<exists>gs. parseGrantText t = Inr gs \<and>
         map raw gs = filter (\<lambda>s. 50 < length (trim s)) (split_rx section_rx t) \<and>
         join_sections (split_rx section_rx t) = t) \<and>
   (marker b \<longrightarrow>
      (\<exists>ga gb. parseGrantText a = Inr ga \<and> parseGrantText b = Inr gb \<and>
         parseGrantText (a @ nl # nl # b) = Inr (ga @ gb)))"
proof
  show "\<exists>gs. parseGrantText t = Inr gs \<and>
         map raw gs = filter (\<lambda>s. 50 < length (trim s)) (split_rx section_rx t) \<and>
         join_sections (split_rx section_rx t) = t"
    unfolding parseGrantText_eq
    by (simp add: section_grant_def comp_def split_rx_sections join_sections_from)
next
  show "marker b \<longrightarrow>
      (\<exists>ga gb. parseGrantText a = Inr ga \<and> parseGrantText b = Inr gb \<and>
         parseGrantText (a @ nl # nl # b) = Inr (ga @ gb))"
  proof
    assume "marker b"
    then have "split_rx section_rx (a @ nl # nl # b) =
               split_rx section_rx a @ split_rx section_rx b"
      unfolding split_rx_sections by (rule sections_from_append)
    then show "\<exists>ga gb. parseGrantText a = Inr ga \<and> parseGrantText b = Inr gb \<and>
         parseGrantText (a @ nl # nl # b) = Inr (ga @ gb)"
      unfolding parseGrantText_eq by simp
  qed
qed

text \<open>Two numbered entries, each of one record, parsed apart and together.\<close>

theorem parse_order_preserving_witness:
  "marker (js ''2. Arts Access Fund\<newline>Funder: City Arts Board\<newline>Amount: $2,500\<newline>Deadline: 2026-04-15'') \<and>
   (\<exists>ga gb.
      parseGrantText (js ''1. Clean Water Grant\<newline>Funder: River Trust\<newline>Amount: $5,000\<newline>Deadline: 2026-03-01'') = Inr ga \<and>
      parseGrantText (js ''2. Arts Access Fund\<newline>Funder: City Arts Board\<newline>Amount: $2,500\<newline>Deadline: 2026-04-15'') = Inr gb \<and>
      parseGrantText (js ''1. Clean Water Grant\<newline>Funder: River Trust\<newline>Amount: $5,000\<newline>Deadline: 2026-03-01'' @ nl # nl #
                      js ''2. Arts Access Fund\<newline>Funder: City Arts Board\<newline>Amount: $2,500\<newline>Deadline: 2026-04-15'') = Inr (ga @ gb) \<and>
      map title ga = [Some (js ''Clean Water Grant'')] \<and>
      map title gb = [Some (js ''Arts Access Fund'')])"
proof -
  have m: "marker (js ''2. Arts Access Fund\<newline>Funder: City Arts Board\<newline>Amount: $2,500\<newline>Deadline: 2026-04-15'')"
    by code_simp
  have ta: "map_sum id (map title) (parseGrantText (js ''1. Clean Water Grant\<newline>Funder: River Trust\<newline>Amount: $5,000\<newline>Deadline: 2026-03-01'')) = Inr [Some (js ''Clean Water Grant'')]"
    by code_simp
  have tb: "map_sum id (map title) (parseGrantText (js ''2. Arts Access Fund\<newline>Funder: City Arts Board\<newline>Amount: $2,500\<newline>Deadline: 2026-04-15'')) = Inr [Some (js ''Arts Access Fund'')]"
    by code_simp
  from parse_order_preserving[of _
      "js ''2. Arts Access Fund\<newline>Funder: City Arts Board\<newline>Amount: $2,500\<newline>Deadline: 2026-04-15''"
      "js ''1. Clean Water Grant\<newline>Funder: River Trust\<newline>Amount: $5,000\<newline>Deadline: 2026-03-01''"] m
  obtain ga gb where
    "parseGrantText (js ''1. Clean Water Grant\<newline>Funder: River Trust\<newline>Amount: $5,000\<newline>Deadline: 2026-03-01'') = Inr ga"
    "parseGrantText (js ''2. Arts Access Fund\<newline>Funder: City Arts Board\<newline>Amount: $2,500\<newline>Deadline: 2026-04-15'') = Inr gb"
    "parseGrantText (js ''1. Clean Water Grant\<newline>Funder: River Trust\<newline>Amount: $5,000\<newline>Deadline: 2026-03-01'' @ nl # nl #
                      js ''2. Arts Access Fund\<newline>Funder: City Arts Board\<newline>Amount: $2,500\<newline>Deadline: 2026-04-15'') = Inr (ga @ gb)"
    by blast
  with m ta tb show ?thesis
    by auto
qed

subsection \<open>The labelled fields\<close>

text \<open>
  Claim C7. Each of the three fields is the first occurrence, in any letter case, of one
  of its label variants followed by a colon, and its value is the rest of that line,
  trimmed. The patterns of the source capture \<^verbatim>\<open>[^\n]+\<close>, a rest of line, but
  skip \<^verbatim>\<open>\s*\<close> after the colon, and a line feed is white space. The section below
  has the line \<^verbatim>\<open>Amount:\<close> with nothing after the colon: the rest of that line is
  empty, and the amount of the parsed record is the whole next line,
  \<^verbatim>\<open>Deadline: 2026-03-01\<close>.
\<close>

theorem blank_label_line_takes_next_line:
  "split_unit nl (js ''1. Clean Water Grant\<newline>Funder: River Trust\<newline>Amount:\<newline>Deadline: 2026-03-01\<newline>Supports rural wells.'')
   = [js ''1. Clean Water Grant'', js ''Funder: River Trust'', js ''Amount:'',
      js ''Deadline: 2026-03-01'', js ''Supports rural wells.''] \<and>
   parseGrantText (js ''1. Clean Water Grant\<newline>Funder: River Trust\<newline>Amount:\<newline>Deadline: 2026-03-01\<newline>Supports rural wells.'')
   = Inr [\<lparr>raw = js ''1. Clean Water Grant\<newline>Funder: River Trust\<newline>Amount:\<newline>Deadline: 2026-03-01\<newline>Supports rural wells.'',
           title = Some (js ''Clean Water Grant''),
           organization = Some (js ''River Trust''),
           amount = Some (js ''Deadline: 2026-03-01''),
           deadline = Some (js ''2026-03-01''),
           description = js ''1. Clean Water Grant\<newline>Funder: River Trust\<newline>Amount:\<newline>Deadline: 2026-03-01\<newline>Supports rural wells.''\<rparr>]"
  by code_simp

subsection \<open>The description\<close>

text \<open>
  Claim C8. The descriptions of the records of \<open>parseGrantText\<close> are the retained sections
  themselves, unchanged and in order, whatever fields were extracted from them; the
  description of a record is its raw section text.
\<close>

theorem description_is_section:
  "\<exists>gs. parseGrantText t = Inr gs \<and>
      map description gs = filter (\<lambda>s. 50 < length (trim s)) (split_rx section_rx t) \<and>
      map description gs = map raw gs"
  unfolding parseGrantText_eq by (simp add: section_grant_def comp_def)

subsection \<open>Totality\<close>

text \<open>
  Claim C9. For every input string \<open>parseGrantText\<close> returns a list of records, possibly
  empty, and never throws: neither \<^verbatim>\<open>lines[0]\<close> nor the capture group of a field
  pattern is ever \<^verbatim>\<open>undefined\<close> where the source uses it.
\<close>

theorem parse_total: "\<exists>gs. parseGrantText t = Inr gs"
  unfolding parseGrantText_eq by blast

subsection \<open>The title of a parsed record\<close>

text \<open>
  Claim C10. Every record of \<open>parseGrantText\<close> has a title that is a string, never
  \<^verbatim>\<open>null\<close>; the heading that the renderer pushes for it at index \<open>i\<close> shows the
  literal \<^verbatim>\<open>Grant Opportunity\<close> exactly when that string is empty.
\<close>

theorem parsed_title_not_null:
  assumes "parseGrantText t = Inr gs" and "g \<in> set gs"
  shows "\<exists>s. title g = Some s \<and>
           hd (push_grant [] g i) =
             Par \<lparr>par_heading = Some HEADING_3,
                   par_children =
                     [TextRun (js_num (i + 1) @ js ''. '' @
                        (if s = [] then js ''Grant Opportunity'' else s))],
                   par_spacing_before = None, par_spacing_after = None,
                   par_numbering = None\<rparr>"
proof -
  from assms obtain sec where "g = section_grant sec"
    unfolding parseGrantText_eq by auto
  then obtain s where s: "title g = Some s"
    by (simp add: section_grant_def)
  then show ?thesis
    by (simp add: push_grant_eq grant_subsection_def title_or_default_def)
qed

text \<open>A section whose first line is only a numeric marker: the parsed title is empty.\<close>

theorem parsed_title_not_null_witness:
  "\<exists>s. title \<lparr>raw = js ''12.\<newline>Funder: River Trust\<newline>Amount: $5,000 for wells in rural dry districts'',
               title = Some [],
               organization = Some (js ''River Trust''),
               amount = Some (js ''$5,000 for wells in rural dry districts''),
               deadline = None,
               description = js ''12.\<newline>Funder: River Trust\<newline>Amount: $5,000 for wells in rural dry districts''\<rparr> = Some s \<and>
       hd (push_grant []
             \<lparr>raw = js ''12.\<newline>Funder: River Trust\<newline>Amount: $5,000 for wells in rural dry districts'',
               title = Some [],
               organization = Some (js ''River Trust''),
               amount = Some (js ''$5,000 for wells in rural dry districts''),
               deadline = None,
               description = js ''12.\<newline>Funder: River Trust\<newline>Amount: $5,000 for wells in rural dry districts''\<rparr> 0) =
         Par \<lparr>par_heading = Some HEADING_3,
               par_children =
                 [TextRun (js_num (0 + 1) @ js ''. '' @
                    (if s = [] then js ''Grant Opportunity'' else s))],
               par_spacing_before = None, par_spacing_after = None,
               par_numbering = None\<rparr>"
proof -
  have p: "parseGrantText (js ''12.\<newline>Funder: River Trust\<newline>Amount: $5,000 for wells in rural dry districts'') =
      Inr [\<lparr>raw = js ''12.\<newline>Funder: River Trust\<newline>Amount: $5,000 for wells in rural dry districts'',
               title = Some [],
               organization = Some (js ''River Trust''),
               amount = Some (js ''$5,000 for wells in rural dry districts''),
               deadline = None,
               description = js ''12.\<newline>Funder: River Trust\<newline>Amount: $5,000 for wells in rural dry districts''\<rparr>]"
    by code_simp
  show ?thesis
    by (rule parsed_title_not_null[OF p]) simp
qed

subsection \<open>The subsections of the grants\<close>

text \<open>
  Claim C4 as stated emits a table row for every field that is not \<^verbatim>\<open>null\<close>. The
  guards of the source are JavaScript conditions on the field values, and the empty
  string is falsy: the section below ends with \<^verbatim>\<open>Funder: \<close>, its organization
  is parsed as the empty string, and its subsection has the heading and the description
  but no table.
\<close>

theorem empty_field_counterexample:
  "parseGrantText (js ''1. Clean Water Grant supports rural wells and pumps in dry districts\<newline>Funder: '')
   = Inr [\<lparr>raw = js ''1. Clean Water Grant supports rural wells and pumps in dry districts\<newline>Funder: '',
           title = Some (js ''Clean Water Grant supports rural wells and pumps in dry districts''),
           organization = Some [],
           amount = None,
           deadline = None,
           description = js ''1. Clean Water Grant supports rural wells and pumps in dry districts\<newline>Funder: ''\<rparr>] \<and>
   createGrantSections
     [\<lparr>raw = js ''1. Clean Water Grant supports rural wells and pumps in dry districts\<newline>Funder: '',
       title = Some (js ''Clean Water Grant supports rural wells and pumps in dry districts''),
       organization = Some [],
       amount = None,
       deadline = None,
       description = js ''1. Clean Water Grant supports rural wells and pumps in dry districts\<newline>Funder: ''\<rparr>]
   = [Par \<lparr>par_heading = Some HEADING_3,
           par_children = [TextRun (js ''1. Clean Water Grant supports rural wells and pumps in dry districts'')],
           par_spacing_before = None, par_spacing_after = None, par_numbering = None\<rparr>,
      Par \<lparr>par_heading = None,
           par_children = [TextRun (js ''1. Clean Water Grant supports rural wells and pumps in dry districts\<newline>Funder: '')],
           par_spacing_before = Some 180, par_spacing_after = Some 360, par_numbering = None\<rparr>]"
  by code_simp

text \<open>
  Claim C4, amended. For every list of records \<open>createGrantSections\<close> emits, in array order
  and numbered from 1, one subsection for each record: a level-3 heading with the number, a
  dot, a space and the title, or the literal \<^verbatim>\<open>Grant Opportunity\<close> when the title is
  \<^verbatim>\<open>null\<close> or empty; then, exactly when at least one of organization, amount and
  deadline is neither \<^verbatim>\<open>null\<close> nor empty, a two-column table with one row for each
  such field; then a paragraph with the description. The level-3 headings of a rendered
  report are those of the parsed records, numbered from 1 in order.
\<close>

theorem grant_subsections:
  "createGrantSections gs =
     concat (map (\<lambda>(j, g). grant_subsection (j + 1) g) (enumerate 0 gs)) \<and>
   (\<exists>parsed bs.
      parseGrantText (req_text data) = Inr parsed \<and>
      generateGrantReportWord fmt data = Inr bs \<and>
      heading_texts HEADING_3 bs =
        map (\<lambda>(j, g). js_num (j + 1) @ js ''. '' @ title_or_default g) (enumerate 0 parsed))"
  using createGrantSections_eq[of gs] generate_heading3[of data fmt] by blast

text \<open>A text of three grant entries: the report has three level-3 headings, numbered 1 to 3.\<close>

theorem grant_subsections_witness:
  "\<exists>bs. generateGrantReportWord (\<lambda>t. t)
          \<lparr>req_text = js ''1. Clean Water Grant\<newline>Funder: River Trust\<newline>Amount: $5,000\<newline>Deadline: 2026-03-01\<newline>\<newline>2. Arts Access Fund\<newline>Funder: City Arts Board\<newline>Amount: $2,500\<newline>Deadline: 2026-04-15\<newline>\<newline>Grant: Youth Sports\<newline>Organization: Play Forward\<newline>Funding: $1,000\<newline>Due: 2026-05-01 by noon'',
            orgDescription = None,
            contextParameters = Some [],
            timestamp = js ''2026-01-15T10:00:00Z''\<rparr> = Inr bs \<and>
        heading_texts HEADING_3 bs =
          [js ''1. Clean Water Grant'', js ''2. Arts Access Fund'', js ''3. Youth Sports'']"
proof -
  have t: "map_sum id (map title_or_default)
      (parseGrantText (js ''1. Clean Water Grant\<newline>Funder: River Trust\<newline>Amount: $5,000\<newline>Deadline: 2026-03-01\<newline>\<newline>2. Arts Access Fund\<newline>Funder: City Arts Board\<newline>Amount: $2,500\<newline>Deadline: 2026-04-15\<newline>\<newline>Grant: Youth Sports\<newline>Organization: Play Forward\<newline>Funding: $1,000\<newline>Due: 2026-05-01 by noon'')) =
      Inr [js ''Clean Water Grant'', js ''Arts Access Fund'', js ''Youth Sports'']"
    by code_simp
  have n: "js_num (Suc 0) = js ''1''" "js_num (Suc (Suc 0)) = js ''2''"
    "js_num (Suc (Suc (Suc 0))) = js ''3''"
    by code_simp+
  from grant_subsections[of "[]" "\<lparr>req_text = js ''1. Clean Water Grant\<newline>Funder: River Trust\<newline>Amount: $5,000\<newline>Deadline: 2026-03-01\<newline>\<newline>2. Arts Access Fund\<newline>Funder: City Arts Board\<newline>Amount: $2,500\<newline>Deadline: 2026-04-15\<newline>\<newline>Grant: Youth Sports\<newline>Organization: Play Forward\<newline>Funding: $1,000\<newline>Due: 2026-05-01 by noon'',
            orgDescription = None,
            contextParameters = Some [],
            timestamp = js ''2026-01-15T10:00:00Z''\<rparr>" "\<lambda>t. t"]
  obtain parsed bs where
    p: "parseGrantText (js ''1. Clean Water Grant\<newline>Funder: River Trust\<newline>Amount: $5,000\<newline>Deadline: 2026-03-01\<newline>\<newline>2. Arts Access Fund\<newline>Funder: City Arts Board\<newline>Amount: $2,500\<newline>Deadline: 2026-04-15\<newline>\<newline>Grant: Youth Sports\<newline>Organization: Play Forward\<newline>Funding: $1,000\<newline>Due: 2026-05-01 by noon'') = Inr parsed"
    and g: "generateGrantReportWord (\<lambda>t. t)
          \<lparr>req_text = js ''1. Clean Water Grant\<newline>Funder: River Trust\<newline>Amount: $5,000\<newline>Deadline: 2026-03-01\<newline>\<newline>2. Arts Access Fund\<newline>Funder: City Arts Board\<newline>Amount: $2,500\<newline>Deadline: 2026-04-15\<newline>\<newline>Grant: Youth Sports\<newline>Organization: Play Forward\<newline>Funding: $1,000\<newline>Due: 2026-05-01 by noon'',
            orgDescription = None,
            contextParameters = Some [],
            timestamp = js ''2026-01-15T10:00:00Z''\<rparr> = Inr bs"
    and h: "heading_texts HEADING_3 bs =
        map (\<lambda>(j, g). js_num (j + 1) @ js ''. '' @ title_or_default g) (enumerate 0 parsed)"
    by auto
  from t p have "map title_or_default parsed =
      [js ''Clean Water Grant'', js ''Arts Access Fund'', js ''Youth Sports'']"
    by simp
  then obtain g1 g2 g3 where parsed: "parsed = [g1, g2, g3]"
    and ts: "title_or_default g1 = js ''Clean Water Grant''"
      "title_or_default g2 = js ''Arts Access Fund''"
      "title_or_default g3 = js ''Youth Sports''"
    by (auto simp: map_eq_Cons_conv)
  have "heading_texts HEADING_3 bs =
      [js ''1. Clean Water Grant'', js ''2. Arts Access Fund'', js ''3. Youth Sports'']"
    unfolding h parsed by (simp add: ts n)
  with g show ?thesis by blast
qed

subsection \<open>The conditional sections\<close>

text \<open>
  Claim C5. The level-2 headings of a report are \<^verbatim>\<open>Organization Profile\<close>, present
  exactly when \<open>orgDescription\<close> is a string that is not empty, then
  \<^verbatim>\<open>Search Parameters\<close>, present exactly when \<open>contextParameters\<close> is an array that
  is not empty, then \<^verbatim>\<open>Grant Opportunities\<close>. A section that is present adds its
  heading and its paragraphs (two blocks for the profile; the heading, one item for each
  parameter and a closing paragraph for the parameters); a section that is absent adds no
  block at all, so with \<open>orgDescription\<close> \<^verbatim>\<open>null\<close> and no parameters the report
  is the title, the date line, the \<^verbatim>\<open>Grant Opportunities\<close> heading and the
  subsections of the grants.
\<close>

theorem conditional_sections:
  "\<exists>parsed bs.
      parseGrantText (req_text data) = Inr parsed \<and>
      generateGrantReportWord fmt data = Inr bs \<and>
      heading_texts HEADING_2 bs =
        (case orgDescription data of
           None \<Rightarrow> []
         | Some s \<Rightarrow> if s = [] then [] else [js ''Organization Profile'']) @
        (case contextParameters data of
           None \<Rightarrow> []
         | Some ps \<Rightarrow> if ps = [] then [] else [js ''Search Parameters'']) @
        [js ''Grant Opportunities''] \<and>
      length bs =
        3 + (case orgDescription data of
               None \<Rightarrow> 0
             | Some s \<Rightarrow> if s = [] then 0 else 2)
          + (case contextParameters data of
               None \<Rightarrow> 0
             | Some ps \<Rightarrow> if ps = [] then 0 else length ps + 2)
          + length (createGrantSections parsed)"
proof -
  obtain parsed where p: "parseGrantText (req_text data) = Inr parsed"
    using parseGrantText_eq by blast
  obtain bs where g: "generateGrantReportWord fmt data = Inr bs"
    and h: "heading_texts HEADING_2 bs =
        (if truthy (orgDescription data) then [js ''Organization Profile''] else []) @
        (if (case contextParameters data of None \<Rightarrow> False | Some ps \<Rightarrow> ps \<noteq> [])
         then [js ''Search Parameters''] else []) @
        [js ''Grant Opportunities'']"
    using generate_heading2[of fmt data] by blast
  have org: "(if truthy (orgDescription data) then [js ''Organization Profile''] else []) =
      (case orgDescription data of
         None \<Rightarrow> []
       | Some s \<Rightarrow> if s = [] then [] else [js ''Organization Profile''])"
    by (cases "orgDescription data") simp_all
  have par: "(if (case contextParameters data of None \<Rightarrow> False | Some ps \<Rightarrow> ps \<noteq> [])
       then [js ''Search Parameters''] else []) =
      (case contextParameters data of
         None \<Rightarrow> []
       | Some ps \<Rightarrow> if ps = [] then [] else [js ''Search Parameters''])"
    by (cases "contextParameters data") simp_all
  from g have len: "length bs =
        3 + (case orgDescription data of
               None \<Rightarrow> 0
             | Some s \<Rightarrow> if s = [] then 0 else 2)
          + (case contextParameters data of
               None \<Rightarrow> 0
             | Some ps \<Rightarrow> if ps = [] then 0 else length ps + 2)
          + length (createGrantSections parsed)"
    unfolding generateGrantReportWord_def p by (auto split: option.splits)
  from h have "heading_texts HEADING_2 bs =
        (case orgDescription data of
           None \<Rightarrow> []
         | Some s \<Rightarrow> if s = [] then [] else [js ''Organization Profile'']) @
        (case contextParameters data of
           None \<Rightarrow> []
         | Some ps \<Rightarrow> if ps = [] then [] else [js ''Search Parameters'']) @
        [js ''Grant Opportunities'']"
    unfolding org par .
  with p g len show ?thesis by blast
qed

end
